theory Spec2Isabelle
  imports Main
begin

section \<open>Strings of the host language\<close>

text \<open>
  A Python \<open>str\<close> is modelled as a \<^typ>\<open>string\<close>, each \<^typ>\<open>char\<close> standing for one
  code point below 256. \<open>str.strip()\<close> removes the white space of \<open>str.isspace\<close> at both
  ends; \<open>str.splitlines()\<close> cuts at the line boundaries of the language reference
  (\<open>\r\n\<close> counting as one boundary) and yields no empty last line.
\<close>

definition is_space :: "char \<Rightarrow> bool" where
  "is_space c = (of_char c \<in> {9, 10, 11, 12, 13, 28, 29, 30, 31, 32, 133, 160 :: nat})"

definition is_linebreak :: "char \<Rightarrow> bool" where
  "is_linebreak c = (of_char c \<in> {10, 11, 12, 13, 28, 29, 30, 133 :: nat})"

definition lstrip :: "string \<Rightarrow> string" where
  "lstrip s = dropWhile is_space s"

definition rstrip :: "string \<Rightarrow> string" where
  "rstrip s = rev (dropWhile is_space (rev s))"

definition strip :: "string \<Rightarrow> string" where
  "strip s = rstrip (lstrip s)"

fun splitlines_from :: "string \<Rightarrow> string \<Rightarrow> string list" where
  "splitlines_from cur [] = (if cur = [] then [] else [cur])"
| "splitlines_from cur [c] = (if is_linebreak c then [cur] else [cur @ [c]])"
| "splitlines_from cur (c # d # cs) =
     (if c = CHR 0x0D \<and> d = CHR 0x0A then cur # splitlines_from [] cs
      else if is_linebreak c then cur # splitlines_from [] (d # cs)
      else splitlines_from (cur @ [c]) (d # cs))"

definition splitlines :: "string \<Rightarrow> string list" where
  "splitlines s = splitlines_from [] s"

text \<open>\<open>line.rstrip("\n")\<close>: only trailing newline characters are removed.\<close>

definition rstrip_nl :: "string \<Rightarrow> string" where
  "rstrip_nl s = rev (dropWhile (\<lambda>c. c = CHR 0x0A) (rev s))"

text \<open>\<open>' '.join(args)\<close>\<close>

fun join_space :: "string list \<Rightarrow> string" where
  "join_space [] = []"
| "join_space [a] = a"
| "join_space (a # b # rest) = a @ '' '' @ join_space (b # rest)"

section \<open>Errors and the results of the external tool\<close>

text \<open>
  \<open>RuntimeError\<close> is raised by \<open>list_branches\<close> itself, \<open>IndexError\<close> by an index out of
  range, and \<open>OSError\<close> stands for whatever \<open>subprocess.run\<close> may raise. Each carries
  what \<open>str(exc)\<close> shows.
\<close>

datatype error = RuntimeError string | OSError string | IndexError

fun error_text :: "error \<Rightarrow> string" where
  "error_text (RuntimeError m) = m"
| "error_text (OSError m) = m"
| "error_text IndexError = ''list index out of range''"

text \<open>
  \<open>run_git_output\<close> runs the external tool; what it returns (exit code and merged
  output) or raises is an input of the model.
\<close>

type_synonym git_result = "error + (int \<times> string)"

type_synonym branch = "string \<times> bool"

section \<open>Listing the branches\<close>

text \<open>The \<open>for\<close> loop of \<open>list_branches\<close>, with the list built so far.\<close>

fun collect_branches :: "string \<Rightarrow> string list \<Rightarrow> branch list \<Rightarrow> branch list" where
  "collect_branches current [] branches = branches"
| "collect_branches current (line # rest) branches =
     (let name = strip line in
      if name = [] then collect_branches current rest branches
      else collect_branches current rest (branches @ [(name, name = current)]))"

text \<open>
  \<open>list_branches\<close>: the first argument is the outcome of the current-branch query
  (\<open>git rev-parse --abbrev-ref HEAD\<close>), the second that of the enumeration query
  (\<open>git for-each-ref refs/heads\<close>), which is only run when the first did not raise.
\<close>

definition list_branches :: "git_result \<Rightarrow> git_result \<Rightarrow> error + branch list" where
  "list_branches head_query refs_query =
     (case head_query of
        Inl e \<Rightarrow> Inl e
      | Inr (code, cur) \<Rightarrow>
          (let current = (if code = 0 then strip cur else []) in
           case refs_query of
             Inl e \<Rightarrow> Inl e
           | Inr (code2, output) \<Rightarrow>
               if code2 \<noteq> 0 then Inl (RuntimeError output)
               else Inr (collect_branches current (splitlines output) [])))"

text \<open>The non-blank lines of an output, stripped: the names the loop keeps.\<close>

definition branch_names :: "string \<Rightarrow> string list" where
  "branch_names output = filter (\<lambda>n. n \<noteq> []) (map strip (splitlines output))"

section \<open>The controller's state\<close>

text \<open>
  The status line is one of seven texts of the source, kept here with the values each is
  formatted from:
  \<^item> \<open>StatusInitial\<close>: the text set by \<open>__init__\<close> (move, switch, delete, quit hints);
  \<^item> \<open>StatusRunning a\<close>: \<open>f"Running: {' '.join(args)}"\<close>, with \<open>a\<close> the joined arguments;
  \<^item> \<open>StatusDone\<close>: \<open>"Done. ..."\<close>;
  \<^item> \<open>StatusGitExited code\<close>: \<open>f"Git exited with code {code}. See output."\<close>;
  \<^item> \<open>StatusSwitched\<close>: \<open>"Switched. ..."\<close>;
  \<^item> \<open>StatusDeleteFailed b\<close>: \<open>f"Delete failed. FORCE delete {branch}? y/N"\<close>;
  \<^item> \<open>StatusForceCanceled\<close>: \<open>"Force delete canceled. ..."\<close>.
\<close>

datatype status_line =
    StatusInitial
  | StatusRunning string
  | StatusDone
  | StatusGitExited int
  | StatusSwitched
  | StatusDeleteFailed string
  | StatusForceCanceled

text \<open>
  The callables passed as \<open>on_success\<close> and \<open>on_failure\<close>: \<open>event.app.exit\<close>,
  \<open>self._after_switch\<close>, \<open>self._refresh_branches\<close> and the closure
  \<open>lambda: self._start_force_prompt(branch)\<close> with the branch it captured.
\<close>

datatype continuation = AppExit | AfterSwitch | RefreshBranches | StartForcePrompt string

text \<open>
  Where a \<open>_run_git_async\<close> coroutine is suspended: before
  \<open>create_subprocess_exec\<close> has returned, at \<open>readline\<close> in the loop, or at
  \<open>proc.wait()\<close>; the number is the child it holds in its local \<open>proc\<close>.
\<close>

datatype pc = Spawning | Reading nat | Waiting nat

text \<open>
  A background task of the application: a \<open>_run_git_async\<close> coroutine with its
  arguments (\<open>args\<close>, \<open>on_success\<close>, \<open>on_failure\<close>, \<open>refresh\<close>), a \<open>_send_to_proc\<close>
  coroutine that has not run yet, or a task that is over.
\<close>

datatype task =
    RunGitAsync "string list" "continuation option" "continuation option" bool pc
  | SendToProc string
  | Completed

text \<open>
  A child process: its argument vector, what has been written to its standard input
  (\<open>None\<close> when it has no pipe), and the exit code once \<open>wait()\<close> has returned it.
\<close>

record process =
  p_args :: "string list"
  p_stdin :: "string option"
  p_code :: "int option"

datatype focus = ListWindow | InputArea

text \<open>
  The fields of \<open>BranchSelectorUI\<close> that the handlers read and write. \<open>proc\<close> is a
  reference into \<open>procs\<close>, the children created so far: the coroutine's local \<open>proc\<close> and
  \<open>self.proc\<close> may name the same child. \<open>log_text\<close> is \<open>log_area.text\<close>, \<open>input_text\<close>
  is \<open>input_area.text\<close>, \<open>focus\<close> the focused window of the layout, \<open>exited\<close> whether
  \<open>app.exit()\<close> has been called, \<open>tasks\<close> the tasks given to
  \<open>create_background_task\<close>, in order.
\<close>

record ui =
  quit_on_switch :: bool
  branches :: "branch list"
  selected :: int
  processing :: bool
  proc :: "nat option"
  status :: status_line
  awaiting_force_branch :: "string option"
  log_text :: string
  input_text :: string
  focus :: focus
  exited :: bool
  tasks :: "task list"
  procs :: "process list"

text \<open>\<open>xs[i]\<close> for a Python integer: a negative index counts from the end.\<close>

definition py_index :: "'a list \<Rightarrow> int \<Rightarrow> error + 'a" where
  "py_index xs i =
     (if 0 \<le> i \<and> i < int (length xs) then Inr (xs ! nat i)
      else if i < 0 \<and> - int (length xs) \<le> i then Inr (xs ! nat (int (length xs) + i))
      else Inl IndexError)"

definition and_then :: "error + 'a \<Rightarrow> ('a \<Rightarrow> error + 'b) \<Rightarrow> error + 'b" where
  "and_then r f = (case r of Inl e \<Rightarrow> Inl e | Inr x \<Rightarrow> f x)"

text \<open>
  \<open>_append_log\<close>: the line goes to the log area after a newline, unless the area is
  empty. The copy written to the log file is not modelled.
\<close>

definition append_log :: "string \<Rightarrow> ui \<Rightarrow> ui" where
  "append_log line s =
     s\<lparr>log_text := (if log_text s \<noteq> [] then log_text s @ [CHR 0x0A] else log_text s) @ line\<rparr>"

section \<open>Refreshing the branch list\<close>

text \<open>The search loop of \<open>_refresh_branches\<close>, \<open>idx\<close> being the index of the head.\<close>

fun locate :: "string \<Rightarrow> branch list \<Rightarrow> int \<Rightarrow> int option" where
  "locate old_name [] idx = None"
| "locate old_name ((name, _) # rest) idx =
     (if name = old_name then Some idx else locate old_name rest (idx + 1))"

text \<open>
  \<open>old_name\<close> of \<open>_refresh_branches\<close>: \<open>None\<close> for an empty list, else the name at the
  selection (an \<open>IndexError\<close> when the selection is out of range).
\<close>

definition selected_name :: "ui \<Rightarrow> error + string option" where
  "selected_name s =
     (if branches s = [] then Inr None
      else and_then (py_index (branches s) (selected s)) (\<lambda>(name, _). Inr (Some name)))"

type_synonym query = "git_result \<times> git_result"

definition refresh_branches :: "query \<Rightarrow> ui \<Rightarrow> error + ui" where
  "refresh_branches q s =
     and_then (selected_name s) (\<lambda>old_name.
       case list_branches (fst q) (snd q) of
         Inl exc \<Rightarrow> Inr (append_log (''[error] '' @ error_text exc) s)
       | Inr bs \<Rightarrow>
           Inr (s\<lparr>branches := bs,
                  selected :=
                    (case old_name of
                       None \<Rightarrow> 0
                     | Some n \<Rightarrow>
                         if n = [] then 0
                         else (case locate n bs 0 of None \<Rightarrow> 0 | Some idx \<Rightarrow> idx))\<rparr>))"

section \<open>Starting a command\<close>

definition run_git ::
  "string list \<Rightarrow> continuation option \<Rightarrow> continuation option \<Rightarrow> bool \<Rightarrow> ui \<Rightarrow> ui" where
  "run_git args on_success on_failure refresh s =
     (let s1 = s\<lparr>processing := True, status := StatusRunning (join_space args)\<rparr>;
          s2 = append_log (''$ '' @ join_space args) s1
      in s2\<lparr>focus := InputArea,
            tasks := tasks s2 @ [RunGitAsync args on_success on_failure refresh Spawning]\<rparr>)"

section \<open>The key handlers\<close>

definition on_quit :: "ui \<Rightarrow> ui" where
  "on_quit s = s\<lparr>exited := True\<rparr>"

definition on_up :: "ui \<Rightarrow> ui" where
  "on_up s =
     (if branches s = [] then s
      else s\<lparr>selected := (selected s - 1) mod int (length (branches s))\<rparr>)"

definition on_down :: "ui \<Rightarrow> ui" where
  "on_down s =
     (if branches s = [] then s
      else s\<lparr>selected := (selected s + 1) mod int (length (branches s))\<rparr>)"

definition on_enter :: "ui \<Rightarrow> error + ui" where
  "on_enter s =
     (if processing s \<or> branches s = [] then Inr s
      else and_then (py_index (branches s) (selected s)) (\<lambda>(branch, _).
        Inr (run_git [''git'', ''switch'', branch]
               (Some (if quit_on_switch s then AppExit else AfterSwitch))
               None
               (\<not> quit_on_switch s) s)))"

definition on_delete :: "ui \<Rightarrow> error + ui" where
  "on_delete s =
     (if processing s \<or> branches s = [] then Inr s
      else and_then (py_index (branches s) (selected s)) (\<lambda>(branch, _).
        Inr (run_git [''git'', ''branch'', ''-d'', branch]
               (Some RefreshBranches)
               (Some (StartForcePrompt branch))
               True s)))"

definition on_input_enter :: "ui \<Rightarrow> ui" where
  "on_input_enter s =
     (let text = input_text s; s1 = s\<lparr>input_text := []\<rparr> in
      if \<not> processing s1 \<or> proc s1 = None then s1
      else append_log (''> '' @ text) (s1\<lparr>tasks := tasks s1 @ [SendToProc text]\<rparr>))"

definition on_force_yes :: "ui \<Rightarrow> ui" where
  "on_force_yes s =
     (case awaiting_force_branch s of
        None \<Rightarrow> s
      | Some branch \<Rightarrow>
          if branch = [] then s
          else run_git [''git'', ''branch'', ''-D'', branch] (Some RefreshBranches) None True
                 (append_log (''Force deleting '' @ branch)
                    (s\<lparr>awaiting_force_branch := None\<rparr>)))"

definition on_force_no :: "ui \<Rightarrow> ui" where
  "on_force_no s =
     (case awaiting_force_branch s of
        None \<Rightarrow> s
      | Some branch \<Rightarrow>
          if branch = [] then s
          else s\<lparr>awaiting_force_branch := None, status := StatusForceCanceled\<rparr>)"

section \<open>Key bindings and their dispatch\<close>

datatype key = KeyCtrlC | KeyEscape | KeyUp | KeyDown | KeyEnter | KeyDelete | KeyChar char

datatype key_filter = Always | NotInputFocused | InputFocused | ForcePrompt

datatype handler =
  HQuit | HUp | HDown | HEnter | HDelete | HInputEnter | HForceYes | HForceNo

text \<open>
  The bindings of \<open>_register_keys\<close> in the order \<open>kb.add\<close> registers them (of two
  decorators on one handler the lower one is applied first).
\<close>

definition bindings :: "(key \<times> key_filter \<times> handler) list" where
  "bindings =
     [(KeyEscape, Always, HQuit),
      (KeyCtrlC, Always, HQuit),
      (KeyChar CHR ''k'', NotInputFocused, HUp),
      (KeyUp, NotInputFocused, HUp),
      (KeyChar CHR ''j'', NotInputFocused, HDown),
      (KeyDown, NotInputFocused, HDown),
      (KeyEnter, NotInputFocused, HEnter),
      (KeyDelete, NotInputFocused, HDelete),
      (KeyEnter, InputFocused, HInputEnter),
      (KeyChar CHR ''y'', ForcePrompt, HForceYes),
      (KeyEnter, ForcePrompt, HForceNo),
      (KeyChar CHR ''n'', ForcePrompt, HForceNo)]"

fun filter_holds :: "key_filter \<Rightarrow> ui \<Rightarrow> bool" where
  "filter_holds Always s = True"
| "filter_holds NotInputFocused s = (focus s \<noteq> InputArea)"
| "filter_holds InputFocused s = (focus s = InputArea)"
| "filter_holds ForcePrompt s = (awaiting_force_branch s \<noteq> None)"

fun run_handler :: "handler \<Rightarrow> ui \<Rightarrow> error + ui" where
  "run_handler HQuit s = Inr (on_quit s)"
| "run_handler HUp s = Inr (on_up s)"
| "run_handler HDown s = Inr (on_down s)"
| "run_handler HEnter s = on_enter s"
| "run_handler HDelete s = on_delete s"
| "run_handler HInputEnter s = Inr (on_input_enter s)"
| "run_handler HForceYes s = Inr (on_force_yes s)"
| "run_handler HForceNo s = Inr (on_force_no s)"

text \<open>
  The toolkit calls, of the bindings of the pressed key whose filter holds, the one
  registered last. A key with no such binding falls to the toolkit's own bindings, of
  which only the insertion of a typed character into the focused input area is kept.
\<close>

definition matching :: "key \<Rightarrow> ui \<Rightarrow> handler list" where
  "matching k s =
     map (\<lambda>(_, _, h). h) (filter (\<lambda>(k', f, _). k' = k \<and> filter_holds f s) bindings)"

definition default_binding :: "key \<Rightarrow> ui \<Rightarrow> ui" where
  "default_binding k s =
     (case k of
        KeyChar c \<Rightarrow> if focus s = InputArea then s\<lparr>input_text := input_text s @ [c]\<rparr> else s
      | _ \<Rightarrow> s)"

definition key_press :: "key \<Rightarrow> ui \<Rightarrow> error + ui" where
  "key_press k s =
     (case matching k s of
        [] \<Rightarrow> Inr (default_binding k s)
      | hs \<Rightarrow> run_handler (last hs) s)"

section \<open>The supervised process\<close>

text \<open>
  \<open>_send_to_proc\<close>: the payload is appended to what the child named by \<open>self.proc\<close> has
  received; failures of \<open>drain\<close> are swallowed.
\<close>

definition send_to_proc :: "string \<Rightarrow> ui \<Rightarrow> ui" where
  "send_to_proc text s =
     (if \<not> processing s then s
      else case proc s of
        None \<Rightarrow> s
      | Some pid \<Rightarrow>
          if pid < length (procs s) then
            (case p_stdin (procs s ! pid) of
               None \<Rightarrow> s
             | Some received \<Rightarrow>
                 s\<lparr>procs := (procs s)[pid := (procs s ! pid)
                      \<lparr>p_stdin := Some (received @ text @ [CHR 0x0A])\<rparr>]\<rparr>)
          else s)"

definition run_continuation :: "continuation \<Rightarrow> query \<Rightarrow> ui \<Rightarrow> error + ui" where
  "run_continuation k q s =
     (case k of
        AppExit \<Rightarrow> Inr (s\<lparr>exited := True\<rparr>)
      | AfterSwitch \<Rightarrow> and_then (refresh_branches q s) (\<lambda>s'. Inr (s'\<lparr>status := StatusSwitched\<rparr>))
      | RefreshBranches \<Rightarrow> refresh_branches q s
      | StartForcePrompt branch \<Rightarrow>
          Inr (s\<lparr>awaiting_force_branch := Some branch, status := StatusDeleteFailed branch\<rparr>))"

text \<open>
  \<open>create_subprocess_exec\<close> has returned: the child exists, with a pipe as its standard
  input, and \<open>self.proc\<close> names it.
\<close>

definition spawn :: "string list \<Rightarrow> ui \<Rightarrow> ui" where
  "spawn args s =
     s\<lparr>proc := Some (length (procs s)),
       procs := procs s @ [\<lparr>p_args = args, p_stdin = Some [], p_code = None\<rparr>]\<rparr>"

text \<open>
  One pass of the reading loop, for what \<open>readline\<close> returned (decoded): the empty line
  is the end of the stream and leaves the loop, any other line is logged.
\<close>

definition read_line :: "string \<Rightarrow> ui \<Rightarrow> ui" where
  "read_line line s = (if line = [] then s else append_log (rstrip_nl line) s)"

text \<open>
  The rest of \<open>_run_git_async\<close>, from the return of \<open>proc.wait()\<close> with \<open>code\<close> for the
  child \<open>pid\<close>. \<open>q1\<close> is what the external tool answers to the refresh asked by
  \<open>refresh\<close>, \<open>q2\<close> what it answers to a refresh made by the continuation.
\<close>

definition finish_git ::
  "continuation option \<Rightarrow> continuation option \<Rightarrow> bool \<Rightarrow> nat \<Rightarrow> int \<Rightarrow> query \<Rightarrow> query \<Rightarrow>
   ui \<Rightarrow> error + ui" where
  "finish_git on_success on_failure refresh pid code q1 q2 s =
     (let s1 = s\<lparr>processing := False, proc := None,
                 procs := (if pid < length (procs s)
                           then (procs s)[pid := (procs s ! pid)\<lparr>p_code := Some code\<rparr>]
                           else procs s)\<rparr>;
          r = (if code = 0 then
                 and_then (if refresh then refresh_branches q1 s1 else Inr s1) (\<lambda>s2.
                   case on_success of
                     Some k \<Rightarrow> run_continuation k q2 s2
                   | None \<Rightarrow> Inr (s2\<lparr>status := StatusDone\<rparr>))
               else
                 (let s2 = s1\<lparr>status := StatusGitExited code\<rparr> in
                  case on_failure of
                    Some k \<Rightarrow> run_continuation k q2 s2
                  | None \<Rightarrow> Inr s2))
      in and_then r (\<lambda>s3. Inr (s3\<lparr>focus := ListWindow\<rparr>)))"

section \<open>The event loop\<close>

text \<open>
  What the loop can be woken by: a key, the creation of the child awaited by task \<open>i\<close>,
  a line (or the end of the stream) for the \<open>readline\<close> of task \<open>i\<close>, a line
  longer than the stream reader's limit (\<open>readline\<close> then raises \<open>ValueError\<close>,
  which nothing in \<open>_run_git_async\<close> catches), the exit code awaited by task \<open>i\<close>
  (with the tool's answers to the refreshes that follow), and the turn of the sending
  task \<open>i\<close>.
\<close>

datatype event =
    Key key
  | Spawned nat
  | Readline nat string
  | ReadlineOverrun nat
  | Exited nat int query query
  | RunSend nat

definition task_at :: "ui \<Rightarrow> nat \<Rightarrow> task" where
  "task_at s i = (if i < length (tasks s) then tasks s ! i else Completed)"

definition set_task :: "nat \<Rightarrow> task \<Rightarrow> ui \<Rightarrow> ui" where
  "set_task i t s = s\<lparr>tasks := (tasks s)[i := t]\<rparr>"

text \<open>
  One turn of the loop; \<open>None\<close> when the event cannot happen in this state (the
  application has exited, or task \<open>i\<close> is not suspended there). A coroutine whose
  \<open>readline\<close> raises ends there: the rest of its body never runs, and the
  application goes on.
\<close>

definition step :: "event \<Rightarrow> ui \<Rightarrow> (error + ui) option" where
  "step ev s =
     (if exited s then None
      else case ev of
        Key k \<Rightarrow> Some (key_press k s)
      | Spawned i \<Rightarrow>
          (case task_at s i of
             RunGitAsync args succ fail rf Spawning \<Rightarrow>
               Some (Inr (set_task i (RunGitAsync args succ fail rf (Reading (length (procs s))))
                            (spawn args s)))
           | _ \<Rightarrow> None)
      | Readline i line \<Rightarrow>
          (case task_at s i of
             RunGitAsync args succ fail rf (Reading pid) \<Rightarrow>
               Some (Inr (set_task i
                            (RunGitAsync args succ fail rf (if line = [] then Waiting pid else Reading pid))
                            (read_line line s)))
           | _ \<Rightarrow> None)
      | ReadlineOverrun i \<Rightarrow>
          (case task_at s i of
             RunGitAsync args succ fail rf (Reading pid) \<Rightarrow> Some (Inr (set_task i Completed s))
           | _ \<Rightarrow> None)
      | Exited i code q1 q2 \<Rightarrow>
          (case task_at s i of
             RunGitAsync args succ fail rf (Waiting pid) \<Rightarrow>
               Some (finish_git succ fail rf pid code q1 q2 (set_task i Completed s))
           | _ \<Rightarrow> None)
      | RunSend i \<Rightarrow>
          (case task_at s i of
             SendToProc text \<Rightarrow> Some (Inr (send_to_proc text (set_task i Completed s)))
           | _ \<Rightarrow> None))"

fun run :: "event list \<Rightarrow> ui \<Rightarrow> (error + ui) option" where
  "run [] s = Some (Inr s)"
| "run (ev # evs) s =
     (case step ev s of
        None \<Rightarrow> None
      | Some (Inl e) \<Rightarrow> Some (Inl e)
      | Some (Inr s') \<Rightarrow> run evs s')"

text \<open>\<open>BranchSelectorUI.__init__\<close>, for the answers of the tool to the first listing.\<close>

definition init_ui :: "bool \<Rightarrow> query \<Rightarrow> error + ui" where
  "init_ui qos q =
     and_then (list_branches (fst q) (snd q)) (\<lambda>bs.
       Inr \<lparr>quit_on_switch = qos, branches = bs, selected = 0, processing = False,
            proc = None, status = StatusInitial, awaiting_force_branch = None,
            log_text = [], input_text = [], focus = ListWindow, exited = False,
            tasks = [], procs = []\<rparr>)"

section \<open>Notions of the specification\<close>

text \<open>The children that have been created and whose exit code has not been observed.\<close>

definition active_procs :: "ui \<Rightarrow> process list" where
  "active_procs s = filter (\<lambda>p. p_code p = None) (procs s)"

text \<open>
  The interaction mode is not a field of the source; it is read off the fields
  \<open>processing\<close> and \<open>awaiting_force_branch\<close>.
\<close>

datatype interaction_mode = Navigating | Busy | ConfirmingForceDelete string

definition mode_of :: "ui \<Rightarrow> interaction_mode" where
  "mode_of s =
     (if processing s then Busy
      else case awaiting_force_branch s of
        Some b \<Rightarrow> ConfirmingForceDelete b
      | None \<Rightarrow> Navigating)"

text \<open>The selection points into a non-empty list.\<close>

definition selection_ok :: "ui \<Rightarrow> bool" where
  "selection_ok s =
     (branches s = [] \<or> (0 \<le> selected s \<and> selected s < int (length (branches s))))"

text \<open>
  What the log area holds after the lines \<open>ls\<close> have been logged one after the other,
  \<open>t\<close> being what it held before.
\<close>

definition log_lines :: "string \<Rightarrow> string list \<Rightarrow> string" where
  "log_lines t ls =
     foldl (\<lambda>t l. (if t \<noteq> [] then t @ [CHR 0x0A] else t) @ rstrip_nl l) t ls"

section \<open>Example states\<close>

text \<open>
  The controller over the branches \<open>main\<close> (checked out) and \<open>old\<close>, with \<open>old\<close>
  selected and nothing running.
\<close>

definition ui_idle :: ui where
  "ui_idle =
     \<lparr>quit_on_switch = False, branches = [(''main'', True), (''old'', False)], selected = 1,
      processing = False, proc = None, status = StatusInitial,
      awaiting_force_branch = None, log_text = [], input_text = [], focus = ListWindow,
      exited = False, tasks = [], procs = []\<rparr>"

text \<open>The same controller while \<open>git switch old\<close> runs and its output is being read.\<close>

definition ui_reading :: ui where
  "ui_reading =
     ui_idle\<lparr>processing := True, proc := Some 0,
       status := StatusRunning ''git switch old'', log_text := ''$ git switch old'',
       focus := InputArea,
       tasks := [RunGitAsync [''git'', ''switch'', ''old''] (Some AfterSwitch) None True (Reading 0)],
       procs := [\<lparr>p_args = [''git'', ''switch'', ''old''], p_stdin = Some [], p_code = None\<rparr>]\<rparr>"

text \<open>The answers of the tool in a repository with the branches \<open>main\<close> and \<open>old\<close>.\<close>

definition q_main_old :: query where
  "q_main_old =
     (Inr (0, ''main'' @ [CHR 0x0A]), Inr (0, ''main'' @ [CHR 0x0A] @ ''old'' @ [CHR 0x0A]))"

text \<open>The enumeration query fails.\<close>

definition q_broken :: query where
  "q_broken = (Inr (0, ''main'' @ [CHR 0x0A]), Inr (128, ''fatal: not a git repository''))"

text \<open>The answers of the tool once \<open>old\<close> is checked out.\<close>

definition q_old_current :: query where
  "q_old_current =
     (Inr (0, ''old'' @ [CHR 0x0A]), Inr (0, ''main'' @ [CHR 0x0A] @ ''old'' @ [CHR 0x0A]))"

text \<open>
  The controller after \<open>git branch -d old\<close>, started from \<open>ui_idle\<close>, has failed with
  code 1 and no output: the force-delete confirmation is pending.
\<close>

definition ui_prompt :: ui where
  "ui_prompt =
     ui_idle\<lparr>status := StatusDeleteFailed ''old'', awaiting_force_branch := Some ''old'',
       log_text := ''$ git branch -d old'', tasks := [Completed],
       procs := [\<lparr>p_args = [''git'', ''branch'', ''-d'', ''old''], p_stdin = Some [],
                  p_code = Some 1\<rparr>]\<rparr>"

text \<open>
  The controller right after the enter key has started \<open>git switch old\<close> from
  \<open>ui_idle\<close> (the child is not created yet) and \<open>yes\<close> has been typed; the same once
  the child exists; and the latter after the typed line has been submitted.
\<close>

definition ui_starting :: ui where
  "ui_starting =
     ui_reading\<lparr>proc := None, procs := [], input_text := ''yes'',
       tasks := [RunGitAsync [''git'', ''switch'', ''old''] (Some AfterSwitch) None True Spawning]\<rparr>"

definition ui_typed :: ui where
  "ui_typed = ui_reading\<lparr>input_text := ''yes''\<rparr>"

definition ui_submitted :: ui where
  "ui_submitted =
     ui_reading\<lparr>log_text := ''$ git switch old'' @ [CHR 0x0A] @ ''> yes'',
       tasks := [RunGitAsync [''git'', ''switch'', ''old''] (Some AfterSwitch) None True (Reading 0),
                 SendToProc ''yes'']\<rparr>"

section \<open>Auxiliary notions for the proofs\<close>

text \<open>
  The state in which the coroutine started by \<open>run_git args su fa rf\<close> from \<open>s\<close> is
  suspended at \<open>proc.wait()\<close>, after its child has been created and the lines \<open>ls\<close>
  and the end of the stream have been read, nothing else having happened.
\<close>

definition at_wait ::
  "string list \<Rightarrow> continuation option \<Rightarrow> continuation option \<Rightarrow> bool \<Rightarrow> string list \<Rightarrow>
   ui \<Rightarrow> ui" where
  "at_wait args su fa rf ls s =
     s\<lparr>processing := True, status := StatusRunning (join_space args),
       log_text := log_lines ((if log_text s \<noteq> [] then log_text s @ [CHR 0x0A] else [])
                              @ ''$ '' @ join_space args) ls,
       focus := InputArea,
       tasks := tasks s @ [RunGitAsync args su fa rf (Waiting (length (procs s)))],
       proc := Some (length (procs s)),
       procs := procs s @ [\<lparr>p_args = args, p_stdin = Some [], p_code = None\<rparr>]\<rparr>"

text \<open>
  What holds of every state the loop reaches: the selection points into the list, every
  child has a pipe as its standard input, and \<open>proc\<close> names a child that exists.
\<close>

definition wf_ui :: "ui \<Rightarrow> bool" where
  "wf_ui s =
     (selection_ok s
      \<and> (\<forall>i < length (procs s). p_stdin (procs s ! i) \<noteq> None)
      \<and> (\<forall>pid. proc s = Some pid \<longrightarrow> pid < length (procs s)))"

text \<open>
  What a key handler may do to the log and the tasks: the log is extended at its end,
  and at most one task is added, a command not yet started or a pending send.
\<close>

definition grows :: "ui \<Rightarrow> ui \<Rightarrow> bool" where
  "grows s s' =
     ((\<exists>t. log_text s' = log_text s @ t)
      \<and> (tasks s' = tasks s
         \<or> (\<exists>args su fa rf. tasks s' = tasks s @ [RunGitAsync args su fa rf Spawning])
         \<or> (\<exists>msg. tasks s' = tasks s @ [SendToProc msg])))"

lemma collect_branches_eq:
  "collect_branches current ls acc =
     acc @ map (\<lambda>n. (n, n = current)) (filter (\<lambda>n. n \<noteq> []) (map strip ls))"
  by (induction ls arbitrary: acc) (simp_all add: Let_def)

lemma list_branches_ok:
  "list_branches (Inr (c1, cur)) (Inr (0, output)) =
     Inr (map (\<lambda>n. (n, n = (if c1 = 0 then strip cur else []))) (branch_names output))"
  by (simp add: list_branches_def collect_branches_eq branch_names_def Let_def)

lemma list_branches_names_nonempty:
  assumes "list_branches q1 q2 = Inr bs"
  shows "[] \<notin> fst ` set bs"
proof -
  from assms obtain c1 cur out where
    q: "q1 = Inr (c1, cur)" "q2 = Inr (0, out)"
    by (auto simp: list_branches_def Let_def split: sum.splits prod.splits if_splits)
  with assms have "bs = map (\<lambda>n. (n, n = (if c1 = 0 then strip cur else []))) (branch_names out)"
    by (simp add: list_branches_ok)
  then show ?thesis
    by (auto simp: branch_names_def)
qed

lemma distinct_count_le1: "distinct ns \<Longrightarrow> length (filter (\<lambda>n. n = c) ns) \<le> 1"
  by (induction ns) (auto simp: filter_empty_conv)

section \<open>Lemmas on the dispatch, the refresh and the event loop\<close>

lemma matching_simps:
  "matching KeyUp s = (if focus s \<noteq> InputArea then [HUp] else [])"
  "matching KeyDown s = (if focus s \<noteq> InputArea then [HDown] else [])"
  "matching (KeyChar CHR ''k'') s = (if focus s \<noteq> InputArea then [HUp] else [])"
  "matching (KeyChar CHR ''j'') s = (if focus s \<noteq> InputArea then [HDown] else [])"
  "matching KeyDelete s = (if focus s \<noteq> InputArea then [HDelete] else [])"
  "matching KeyEnter s =
     (if focus s \<noteq> InputArea then [HEnter] else [HInputEnter])
     @ (if awaiting_force_branch s \<noteq> None then [HForceNo] else [])"
  "matching (KeyChar CHR ''y'') s =
     (if awaiting_force_branch s \<noteq> None then [HForceYes] else [])"
  "matching (KeyChar CHR ''n'') s =
     (if awaiting_force_branch s \<noteq> None then [HForceNo] else [])"
  "matching KeyEscape s = [HQuit]"
  "matching KeyCtrlC s = [HQuit]"
  by (simp_all add: matching_def bindings_def)

lemma locate_eq:
  "locate n bs k =
     (if n \<in> fst ` set bs
      then Some (k + int (length (takeWhile (\<lambda>b. fst b \<noteq> n) bs))) else None)"
  by (induction bs arbitrary: k) (force simp: image_iff)+

lemma selected_name_ok:
  "selection_ok s \<Longrightarrow>
   selected_name s =
     Inr (if branches s = [] then None else Some (fst (branches s ! nat (selected s))))"
  by (auto simp: selection_ok_def selected_name_def py_index_def and_then_def
      split: prod.splits)

lemma refresh_branches_eq:
  assumes "selection_ok s"
  shows "refresh_branches q s =
     Inr (case list_branches (fst q) (snd q) of
            Inl exc \<Rightarrow>
              s\<lparr>log_text := (if log_text s \<noteq> [] then log_text s @ [CHR 0x0A] else [])
                              @ ''[error] '' @ error_text exc\<rparr>
          | Inr bs \<Rightarrow>
              (let old_name = fst (branches s ! nat (selected s)) in
               s\<lparr>branches := bs,
                  selected := (if branches s \<noteq> [] \<and> old_name \<in> fst ` set bs
                               then int (length (takeWhile (\<lambda>b. fst b \<noteq> old_name) bs))
                               else 0)\<rparr>))"
proof (cases "list_branches (fst q) (snd q)")
  case (Inl exc)
  then show ?thesis
    using assms by (simp add: refresh_branches_def selected_name_ok and_then_def append_log_def)
next
  case (Inr bs)
  then have ne: "[] \<notin> fst ` set bs"
    by (rule list_branches_names_nonempty)
  show ?thesis
  proof (cases "branches s = []")
    case True
    then show ?thesis
      using assms Inr by (simp add: refresh_branches_def selected_name_ok and_then_def)
  next
    case False
    then show ?thesis
      using assms Inr ne
      by (auto simp: refresh_branches_def selected_name_ok and_then_def locate_eq Let_def)
  qed
qed

lemma refresh_selection_ok:
  assumes "selection_ok s" "refresh_branches q s = Inr s'"
  shows "selection_ok s'"
proof (cases "list_branches (fst q) (snd q)")
  case (Inl exc)
  then show ?thesis
    using assms by (auto simp: refresh_branches_eq selection_ok_def)
next
  case (Inr bs)
  have "length (takeWhile P bs) < length bs" if "x \<in> set bs" "\<not> P x" for P x
    using that by (induction bs) auto
  then show ?thesis
    using assms Inr by (auto simp: refresh_branches_eq selection_ok_def Let_def)
qed

lemma run_append:
  "run (xs @ ys) s =
     (case run xs s of
        None \<Rightarrow> None
      | Some (Inl e) \<Rightarrow> Some (Inl e)
      | Some (Inr s') \<Rightarrow> run ys s')"
  by (induction xs arbitrary: s) (auto split: option.splits sum.splits)


lemma task_at_log_text [simp]: "task_at (s\<lparr>log_text := x\<rparr>) i = task_at s i"
  by (simp add: task_at_def)

lemma step_readline:
  assumes "\<not> exited s" "task_at s i = RunGitAsync args su fa rf (Reading pid)" "l \<noteq> []"
  shows "step (Readline i l) s = Some (Inr (s\<lparr>log_text := log_lines (log_text s) [l]\<rparr>))"
proof -
  from assms(2) have "i < length (tasks s)"
    and "tasks s ! i = RunGitAsync args su fa rf (Reading pid)"
    by (auto simp: task_at_def split: if_splits)
  then have "(tasks s)[i := RunGitAsync args su fa rf (Reading pid)] = tasks s"
    by (metis list_update_id)
  then show ?thesis
    using assms by (simp add: step_def read_line_def set_task_def append_log_def log_lines_def)
qed

lemma run_readlines:
  assumes "\<not> exited s" "task_at s i = RunGitAsync args su fa rf (Reading pid)" "[] \<notin> set ls"
  shows "run (map (Readline i) ls) s = Some (Inr (s\<lparr>log_text := log_lines (log_text s) ls\<rparr>))"
  using assms
proof (induction ls arbitrary: s)
  case Nil
  then show ?case by (simp add: log_lines_def)
next
  case (Cons l ls)
  let ?s1 = "s\<lparr>log_text := log_lines (log_text s) [l]\<rparr>"
  from Cons.prems have st: "step (Readline i l) s = Some (Inr ?s1)"
    by (intro step_readline) auto
  have "run (map (Readline i) ls) ?s1 = Some (Inr (?s1\<lparr>log_text := log_lines (log_text ?s1) ls\<rparr>))"
    using Cons.prems by (intro Cons.IH) auto
  then show ?case
    using st by (simp add: log_lines_def)
qed


lemma step_spawned:
  assumes "\<not> exited s"
  shows "step (Spawned (length (tasks s))) (run_git args su fa rf s) =
    Some (Inr (s\<lparr>processing := True, status := StatusRunning (join_space args),
       log_text := (if log_text s \<noteq> [] then log_text s @ [CHR 0x0A] else [])
                              @ ''$ '' @ join_space args,
       focus := InputArea,
       tasks := tasks s @ [RunGitAsync args su fa rf (Reading (length (procs s)))],
       proc := Some (length (procs s)),
       procs := procs s @ [\<lparr>p_args = args, p_stdin = Some [], p_code = None\<rparr>]\<rparr>))"
  using assms
  by (simp add: step_def run_git_def append_log_def task_at_def Let_def spawn_def set_task_def)

lemma run_command:
  assumes "\<not> exited s" "[] \<notin> set ls"
  shows "run (Spawned (length (tasks s)) # map (Readline (length (tasks s))) ls
              @ [Readline (length (tasks s)) []]) (run_git args su fa rf s)
         = Some (Inr (at_wait args su fa rf ls s))"
proof -
  let ?n = "length (tasks s)"
  let ?s2 = "s\<lparr>processing := True, status := StatusRunning (join_space args),
       log_text := (if log_text s \<noteq> [] then log_text s @ [CHR 0x0A] else [])
                              @ ''$ '' @ join_space args,
       focus := InputArea,
       tasks := tasks s @ [RunGitAsync args su fa rf (Reading (length (procs s)))],
       proc := Some (length (procs s)),
       procs := procs s @ [\<lparr>p_args = args, p_stdin = Some [], p_code = None\<rparr>]\<rparr>"
  have e: "\<not> exited ?s2" using assms(1) by simp
  have t: "task_at ?s2 ?n = RunGitAsync args su fa rf (Reading (length (procs s)))"
    by (simp add: task_at_def)
  let ?s3 = "?s2\<lparr>log_text := log_lines (log_text ?s2) ls\<rparr>"
  have r: "run (map (Readline ?n) ls) ?s2 = Some (Inr ?s3)"
    using e t assms(2) by (rule run_readlines)
  have e3: "\<not> exited ?s3" using assms(1) by simp
  have t3: "task_at ?s3 ?n = RunGitAsync args su fa rf (Reading (length (procs s)))"
    by (simp add: task_at_def)
  have l: "step (Readline ?n []) ?s3 = Some (Inr (at_wait args su fa rf ls s))"
    using e3 t3 by (simp add: step_def read_line_def set_task_def at_wait_def)
  show ?thesis
    using step_spawned [OF assms(1), of args su fa rf] r l
    by (simp add: run_append del: step_def)
qed

lemma step_exited_at_wait:
  assumes "\<not> exited s"
  shows "step (Exited (length (tasks s)) code q1 q2) (at_wait args su fa rf ls s) =
     Some (finish_git su fa rf (length (procs s)) code q1 q2
             ((at_wait args su fa rf ls s)\<lparr>tasks := tasks s @ [Completed]\<rparr>))"
  using assms by (simp add: step_def at_wait_def task_at_def set_task_def)

lemma on_delete_eq:
  assumes "\<not> processing s" "branches s \<noteq> []" "selection_ok s"
  shows "on_delete s =
     Inr (run_git [''git'', ''branch'', ''-d'', fst (branches s ! nat (selected s))]
            (Some RefreshBranches)
            (Some (StartForcePrompt (fst (branches s ! nat (selected s))))) True s)"
  using assms
  by (auto simp: on_delete_def selection_ok_def py_index_def and_then_def split: prod.splits)

lemma on_enter_eq:
  assumes "\<not> processing s" "branches s \<noteq> []" "selection_ok s"
  shows "on_enter s =
     Inr (run_git [''git'', ''switch'', fst (branches s ! nat (selected s))]
            (Some (if quit_on_switch s then AppExit else AfterSwitch)) None
            (\<not> quit_on_switch s) s)"
  using assms
  by (auto simp: on_enter_def selection_ok_def py_index_def and_then_def split: prod.splits)

lemma run_single:
  "run [ev] s =
     (case step ev s of None \<Rightarrow> None | Some (Inl e) \<Rightarrow> Some (Inl e) | Some (Inr s') \<Rightarrow> Some (Inr s'))"
  by (simp split: option.splits sum.splits)

lemma run_whole_command:
  assumes "\<not> exited s" "[] \<notin> set ls" "step (Key k) s = Some (Inr (run_git args su fa rf s))"
  shows "run (Key k # Spawned (length (tasks s)) # map (Readline (length (tasks s))) ls
              @ [Readline (length (tasks s)) [], Exited (length (tasks s)) code q1 q2]) s
         = (case finish_git su fa rf (length (procs s)) code q1 q2
             ((at_wait args su fa rf ls s)\<lparr>tasks := tasks s @ [Completed]\<rparr>) of
              Inl e \<Rightarrow> Some (Inl e) | Inr s' \<Rightarrow> Some (Inr s'))"
proof -
  let ?n = "length (tasks s)"
  have "run (Key k # (Spawned ?n # map (Readline ?n) ls @ [Readline ?n []]) @ [Exited ?n code q1 q2]) s
     = (case finish_git su fa rf (length (procs s)) code q1 q2
             ((at_wait args su fa rf ls s)\<lparr>tasks := tasks s @ [Completed]\<rparr>) of
              Inl e \<Rightarrow> Some (Inl e) | Inr s' \<Rightarrow> Some (Inr s'))"
    unfolding run.simps(2) [of "Key k"] assms(3) run_append
    using run_command [OF assms(1,2), of args su fa rf] step_exited_at_wait [OF assms(1), of code q1 q2 args su fa rf ls]
    by (simp add: run_single del: run.simps(2) split: sum.splits)
  then show ?thesis by simp
qed

lemma finish_git_fail_prompt:
  assumes "code \<noteq> 0"
  shows "finish_git su (Some (StartForcePrompt b)) rf pid code q1 q2 s =
     Inr (s\<lparr>processing := False, proc := None,
            procs := (if pid < length (procs s)
                      then (procs s)[pid := (procs s ! pid)\<lparr>p_code := Some code\<rparr>] else procs s),
            status := StatusDeleteFailed b, awaiting_force_branch := Some b,
            focus := ListWindow\<rparr>)"
  using assms
  by (simp add: finish_git_def run_continuation_def and_then_def Let_def)

lemma finish_git_fail_plain:
  assumes "code \<noteq> 0"
  shows "finish_git su None rf pid code q1 q2 s =
     Inr (s\<lparr>processing := False, proc := None,
            procs := (if pid < length (procs s)
                      then (procs s)[pid := (procs s ! pid)\<lparr>p_code := Some code\<rparr>] else procs s),
            status := StatusGitExited code, focus := ListWindow\<rparr>)"
  using assms
  by (simp add: finish_git_def and_then_def Let_def)

lemma refresh_cases:
  assumes "selection_ok s"
  shows "\<exists>s'. refresh_branches q s = Inr s' \<and> selection_ok s'
     \<and> branches s' = (case list_branches (fst q) (snd q) of Inr bs \<Rightarrow> bs | Inl _ \<Rightarrow> branches s)
     \<and> processing s' = processing s \<and> proc s' = proc s \<and> status s' = status s
     \<and> awaiting_force_branch s' = awaiting_force_branch s \<and> exited s' = exited s
     \<and> focus s' = focus s \<and> tasks s' = tasks s \<and> procs s' = procs s"
proof -
  obtain s' where r: "refresh_branches q s = Inr s'"
    using refresh_branches_eq [OF assms] by simp
  then have "selection_ok s'"
    using assms refresh_selection_ok by blast
  then show ?thesis
    using r refresh_branches_eq [OF assms, of q]
    by (auto simp: Let_def split: sum.splits)
qed

lemma finish_git_after_switch:
  assumes "selection_ok s"
  shows "\<exists>s'. finish_git (Some AfterSwitch) None True pid 0 q1 q2 s = Inr s'
     \<and> \<not> processing s' \<and> proc s' = None \<and> status s' = StatusSwitched
     \<and> awaiting_force_branch s' = awaiting_force_branch s \<and> exited s' = exited s
     \<and> focus s' = ListWindow
     \<and> branches s' =
         (case list_branches (fst q2) (snd q2) of
            Inr bs \<Rightarrow> bs
          | Inl _ \<Rightarrow> (case list_branches (fst q1) (snd q1) of
                         Inr bs \<Rightarrow> bs | Inl _ \<Rightarrow> branches s))"
proof -
  let ?s1 = "s\<lparr>processing := False, proc := None,
                 procs := (if pid < length (procs s)
                           then (procs s)[pid := (procs s ! pid)\<lparr>p_code := Some 0\<rparr>]
                           else procs s)\<rparr>"
  have "selection_ok ?s1"
    using assms by (simp add: selection_ok_def)
  from refresh_cases [OF this, of q1] obtain s2 where
    s2: "refresh_branches q1 ?s1 = Inr s2" "selection_ok s2"
      "branches s2 = (case list_branches (fst q1) (snd q1) of Inr bs \<Rightarrow> bs | Inl _ \<Rightarrow> branches ?s1)"
      "processing s2 = processing ?s1" "proc s2 = proc ?s1"
      "awaiting_force_branch s2 = awaiting_force_branch ?s1" "exited s2 = exited ?s1"
    by blast
  from refresh_cases [OF s2(2), of q2] obtain s3 where
    s3: "refresh_branches q2 s2 = Inr s3"
      "branches s3 = (case list_branches (fst q2) (snd q2) of Inr bs \<Rightarrow> bs | Inl _ \<Rightarrow> branches s2)"
      "processing s3 = processing s2" "proc s3 = proc s2"
      "awaiting_force_branch s3 = awaiting_force_branch s2" "exited s3 = exited s2"
    by blast
  have "finish_git (Some AfterSwitch) None True pid 0 q1 q2 s
          = Inr (s3\<lparr>status := StatusSwitched, focus := ListWindow\<rparr>)"
    using s2(1) s3(1) by (simp add: finish_git_def run_continuation_def and_then_def Let_def)
  then show ?thesis
    using s2 s3 by (auto split: sum.splits)
qed

lemma finish_git_app_exit:
  "finish_git (Some AppExit) None False pid 0 q1 q2 s =
     Inr (s\<lparr>processing := False, proc := None,
            procs := (if pid < length (procs s)
                      then (procs s)[pid := (procs s ! pid)\<lparr>p_code := Some 0\<rparr>] else procs s),
            exited := True, focus := ListWindow\<rparr>)"
  by (simp add: finish_git_def run_continuation_def and_then_def Let_def)

lemma wf_run_git: "wf_ui s \<Longrightarrow> wf_ui (run_git args su fa rf s)"
  by (simp add: wf_ui_def run_git_def append_log_def selection_ok_def Let_def)

lemma wf_append_log: "wf_ui s \<Longrightarrow> wf_ui (append_log l s)"
  by (simp add: wf_ui_def append_log_def selection_ok_def)

lemma wf_handler:
  assumes "wf_ui s" "run_handler h s = Inr s'"
  shows "wf_ui s'"
proof (cases h)
  case HQuit
  then show ?thesis using assms by (auto simp: on_quit_def wf_ui_def selection_ok_def)
next
  case HUp
  then show ?thesis using assms
    by (auto simp: on_up_def wf_ui_def selection_ok_def split: if_splits)
next
  case HDown
  then show ?thesis using assms
    by (auto simp: on_down_def wf_ui_def selection_ok_def split: if_splits)
next
  case HEnter
  then show ?thesis using assms wf_run_git
    by (auto simp: on_enter_def and_then_def split: if_splits sum.splits prod.splits)
next
  case HDelete
  then show ?thesis using assms wf_run_git
    by (auto simp: on_delete_def and_then_def split: if_splits sum.splits prod.splits)
next
  case HInputEnter
  then show ?thesis using assms
    by (auto simp: on_input_enter_def Let_def wf_ui_def selection_ok_def append_log_def)
next
  case HForceYes
  have "wf_ui (s\<lparr>awaiting_force_branch := None\<rparr>)"
    using assms(1) by (simp add: wf_ui_def selection_ok_def)
  then show ?thesis using HForceYes assms wf_run_git wf_append_log
    by (auto simp: on_force_yes_def split: option.splits if_splits)
next
  case HForceNo
  then show ?thesis using assms
    by (auto simp: on_force_no_def wf_ui_def selection_ok_def split: option.splits if_splits)
qed

lemma wf_key_press:
  assumes "wf_ui s" "key_press k s = Inr s'"
  shows "wf_ui s'"
proof (cases "matching k s")
  case Nil
  then have "s' = default_binding k s"
    using assms(2) by (simp add: key_press_def)
  then show ?thesis
    using assms(1) by (auto simp: default_binding_def wf_ui_def selection_ok_def split: key.splits)
next
  case (Cons h hs)
  then have "run_handler (last (h # hs)) s = Inr s'"
    using assms(2) by (simp add: key_press_def)
  then show ?thesis
    using assms(1) wf_handler by blast
qed

lemma wf_refresh:
  assumes "wf_ui s" "refresh_branches q s = Inr s'"
  shows "wf_ui s'"
proof -
  from assms have ok: "selection_ok s" by (simp add: wf_ui_def)
  from refresh_cases [OF ok, of q] assms(2) have
    "selection_ok s'" "proc s' = proc s" "procs s' = procs s"
    by auto
  then show ?thesis
    using assms(1) by (simp add: wf_ui_def)
qed

lemma wf_continuation:
  assumes "wf_ui s" "run_continuation k q s = Inr s'"
  shows "wf_ui s'"
proof (cases k)
  case AppExit
  then show ?thesis using assms by (auto simp: run_continuation_def wf_ui_def selection_ok_def)
next
  case AfterSwitch
  then obtain s2 where "refresh_branches q s = Inr s2" "s' = s2\<lparr>status := StatusSwitched\<rparr>"
    using assms(2) by (auto simp: run_continuation_def and_then_def split: sum.splits)
  then show ?thesis
    using wf_refresh [OF assms(1)] by (auto simp: wf_ui_def selection_ok_def)
next
  case RefreshBranches
  then show ?thesis using assms wf_refresh by (auto simp: run_continuation_def)
next
  case (StartForcePrompt b)
  then show ?thesis using assms by (auto simp: run_continuation_def wf_ui_def selection_ok_def)
qed

lemma wf_finish_git:
  assumes "wf_ui s" "finish_git su fa rf pid code q1 q2 s = Inr s'"
  shows "wf_ui s'"
proof -
  let ?s1 = "s\<lparr>processing := False, proc := None,
                 procs := (if pid < length (procs s)
                           then (procs s)[pid := (procs s ! pid)\<lparr>p_code := Some code\<rparr>]
                           else procs s)\<rparr>"
  have w1: "wf_ui ?s1"
    using assms(1) by (auto simp: wf_ui_def selection_ok_def nth_list_update)
  have foc: "wf_ui t \<Longrightarrow> wf_ui (t\<lparr>focus := ListWindow\<rparr>)" for t
    by (simp add: wf_ui_def selection_ok_def)
  have st: "wf_ui t \<Longrightarrow> wf_ui (t\<lparr>status := x\<rparr>)" for t x
    by (simp add: wf_ui_def selection_ok_def)
  show ?thesis
  proof (cases "code = 0")
    case True
    obtain s2 where s2: "(if rf then refresh_branches q1 ?s1 else Inr ?s1) = Inr s2"
      using assms(2) True by (auto simp: finish_git_def and_then_def Let_def split: sum.splits)
    then have w2: "wf_ui s2"
      using w1 wf_refresh by (auto split: if_splits)
    obtain s3 where s3: "(case su of Some k \<Rightarrow> run_continuation k q2 s2
                           | None \<Rightarrow> Inr (s2\<lparr>status := StatusDone\<rparr>)) = Inr s3"
      and s': "s' = s3\<lparr>focus := ListWindow\<rparr>"
      using assms(2) True s2 by (auto simp: finish_git_def and_then_def Let_def split: sum.splits)
    have "wf_ui s3"
      using s3 w2 wf_continuation st by (auto split: option.splits)
    then show ?thesis using s' foc by simp
  next
    case False
    obtain s3 where s3: "(case fa of Some k \<Rightarrow> run_continuation k q2 (?s1\<lparr>status := StatusGitExited code\<rparr>)
                           | None \<Rightarrow> Inr (?s1\<lparr>status := StatusGitExited code\<rparr>)) = Inr s3"
      and s': "s' = s3\<lparr>focus := ListWindow\<rparr>"
      using assms(2) False by (auto simp: finish_git_def and_then_def Let_def split: sum.splits)
    have "wf_ui (?s1\<lparr>status := StatusGitExited code\<rparr>)"
      using w1 by (rule st)
    then have "wf_ui s3"
      using s3 wf_continuation by (auto split: option.splits)
    then show ?thesis using s' foc by simp
  qed
qed

lemma wf_set_task: "wf_ui s \<Longrightarrow> wf_ui (set_task i t s)"
  by (simp add: wf_ui_def set_task_def selection_ok_def)

lemma wf_step:
  assumes "wf_ui s" "step ev s = Some (Inr s')"
  shows "wf_ui s'"
proof (cases ev)
  case (Key k)
  then show ?thesis using assms wf_key_press by (auto simp: step_def split: if_splits)
next
  case (Spawned i)
  have "wf_ui (spawn args s)" for args
    using assms(1) by (auto simp: wf_ui_def spawn_def selection_ok_def nth_append)
  then show ?thesis using Spawned assms wf_set_task
    by (auto simp: step_def split: if_splits task.splits pc.splits)
next
  case (Readline i l)
  have "wf_ui (read_line l s)"
    using assms(1) wf_append_log by (simp add: read_line_def)
  then show ?thesis using Readline assms wf_set_task
    by (auto simp: step_def split: if_splits task.splits pc.splits)
next
  case (ReadlineOverrun i)
  then show ?thesis using assms wf_set_task
    by (auto simp: step_def split: if_splits task.splits pc.splits)
next
  case (Exited i code q1 q2)
  with assms(2) obtain su fa rf pid where
    "finish_git su fa rf pid code q1 q2 (set_task i Completed s) = Inr s'"
    by (auto simp: step_def split: if_splits task.splits pc.splits)
  then show ?thesis
    using wf_finish_git [OF wf_set_task [OF assms(1)]] by blast
next
  case (RunSend i)
  have "wf_ui (send_to_proc msg t)" if "wf_ui t" for msg t
    using that by (auto simp: wf_ui_def send_to_proc_def selection_ok_def nth_list_update split: option.splits)
  then show ?thesis using RunSend assms wf_set_task
    by (auto simp: step_def split: if_splits task.splits pc.splits)
qed

lemma wf_run:
  assumes "wf_ui s" "run evs s = Some (Inr s')"
  shows "wf_ui s'"
  using assms
proof (induction evs arbitrary: s)
  case Nil
  then show ?case by simp
next
  case (Cons ev evs)
  then show ?case
    using wf_step by (auto split: option.splits sum.splits)
qed

lemma wf_init: "init_ui qos q = Inr s \<Longrightarrow> wf_ui s"
  by (auto simp: init_ui_def and_then_def wf_ui_def selection_ok_def split: sum.splits)

lemma grows_refl [simp]: "grows s s"
  by (simp add: grows_def)








lemma task_at_append:
  "task_at (s\<lparr>tasks := tasks s @ [t]\<rparr>) i =
     (if i < length (tasks s) then task_at s i else if i = length (tasks s) then t else Completed)"
  by (auto simp: task_at_def nth_append)




text \<open>
  The example states are states of the running controller: \<open>ui_idle\<close> is where the
  down key leaves the controller started on the branches \<open>main\<close> and \<open>old\<close>,
  \<open>ui_reading\<close> is reached from it by the enter key and the creation of the child,
  \<open>ui_prompt\<close> by a delete that fails.
\<close>

lemma ui_idle_reached:
  "init_ui False q_main_old = Inr (ui_idle\<lparr>selected := 0\<rparr>)
   \<and> run [Key KeyDown] (ui_idle\<lparr>selected := 0\<rparr>) = Some (Inr ui_idle)"
  by code_simp

lemma ui_prompt_reached:
  "run [Key KeyDelete, Spawned 0, Readline 0 [], Exited 0 1 q_main_old q_main_old] ui_idle
     = Some (Inr ui_prompt)"
  by code_simp

lemma ui_reading_reached:
  "run [Key KeyEnter, Spawned 0] ui_idle = Some (Inr ui_reading)"
  by code_simp

text \<open>The enter and delete handlers start nothing while a command is running.\<close>

lemma busy_guards: "processing s \<Longrightarrow> on_enter s = Inr s \<and> on_delete s = Inr s"
  by (simp add: on_enter_def on_delete_def)

text \<open>Every state reached from the initial one by the loop is well formed.\<close>

lemma reachable_wf: "init_ui qos q = Inr s0 \<Longrightarrow> run evs s0 = Some (Inr s) \<Longrightarrow> wf_ui s"
  using wf_init wf_run by blast








lemma ui_typed_reached:
  "run [Key KeyEnter, Spawned 0, Key (KeyChar CHR ''y''), Key (KeyChar CHR ''e''),
        Key (KeyChar CHR ''s'')] ui_idle = Some (Inr ui_typed)
   \<and> run [Key KeyEnter, Key (KeyChar CHR ''y''), Key (KeyChar CHR ''e''),
        Key (KeyChar CHR ''s'')] ui_idle = Some (Inr ui_starting)
   \<and> run [Key KeyEnter] ui_typed = Some (Inr ui_submitted)"
  by code_simp

section \<open>The listing operation\<close>




text \<open>
  Claim C9, as stated, fails: the listing keeps a repeated name of the enumeration
  output as often as it occurs, and marks each occurrence current.
\<close>

theorem list_branches_repeated_name:
  "list_branches (Inr (0, ''main'' @ [CHR 0x0A]))
     (Inr (0, ''main'' @ [CHR 0x0A] @ ''main'' @ [CHR 0x0A]))
   = Inr [(''main'', True), (''main'', True)]
   \<and> \<not> distinct (map fst [(''main'', True), (''main'', True)])
   \<and> \<not> length (filter snd [(''main'', True), (''main'', True)]) \<le> 1"
  by code_simp

text \<open>
  Claim C9, amended. When the non-blank lines of the enumeration output, stripped, are
  pairwise distinct, the names of the listed branches are unique and at most one branch
  is marked current.
\<close>

theorem list_branches_distinct:
  assumes "list_branches q1 (Inr (c2, out)) = Inr bs"
    and "distinct (branch_names out)"
  shows "distinct (map fst bs) \<and> length (filter snd bs) \<le> 1"
proof -
  from assms(1) obtain c1 cur where q: "q1 = Inr (c1, cur)" "c2 = 0"
    by (auto simp: list_branches_def Let_def split: sum.splits prod.splits if_splits)
  let ?cur = "if c1 = 0 then strip cur else []"
  from q assms(1) have bs: "bs = map (\<lambda>n. (n, n = ?cur)) (branch_names out)"
    by (simp add: list_branches_ok)
  have "map fst bs = branch_names out"
    by (simp add: bs comp_def)
  moreover have "length (filter snd bs) = length (filter (\<lambda>n. n = ?cur) (branch_names out))"
    by (simp add: bs filter_map comp_def)
  ultimately show ?thesis
    using assms(2) distinct_count_le1 [OF assms(2), of ?cur] by simp
qed

theorem list_branches_distinct_witness:
  "list_branches (Inr (0, ''main'' @ [CHR 0x0A]))
     (Inr (0, ''main'' @ [CHR 0x0A] @ ''dev'' @ [CHR 0x0A]))
     = Inr [(''main'', True), (''dev'', False)]
   \<and> distinct (branch_names (''main'' @ [CHR 0x0A] @ ''dev'' @ [CHR 0x0A]))
   \<and> (distinct (map fst [(''main'', True), (''dev'', False)])
      \<and> length (filter snd [(''main'', True), (''dev'', False)]) \<le> 1)"
proof -
  have h1: "list_branches (Inr (0, ''main'' @ [CHR 0x0A]))
     (Inr (0, ''main'' @ [CHR 0x0A] @ ''dev'' @ [CHR 0x0A]))
     = Inr [(''main'', True), (''dev'', False)]"
    by code_simp
  have h2: "distinct (branch_names (''main'' @ [CHR 0x0A] @ ''dev'' @ [CHR 0x0A]))"
    by code_simp
  show ?thesis
    by (rule conjI [OF h1 conjI [OF h2 list_branches_distinct [OF h1 h2]]])
qed

section \<open>Moving the selection\<close>



section \<open>Refreshing\<close>

text \<open>
  Claim C4. From a state whose selection points into the list (every state the
  controller reaches), a refresh never raises. When the listing fails, with whatever
  exception, the state is the old one but for the log, which has the line
  \<open>[error]\<close> followed by the exception's text appended: list and selection are
  unchanged. When the listing succeeds, the list is the new one and the selection is the
  first index of the previously selected name in it, or 0 when that name does not occur
  (or there was no selection, the old list being empty).
\<close>

theorem refresh_branches_spec:
  assumes "selection_ok s"
  shows "refresh_branches q s =
     Inr (case list_branches (fst q) (snd q) of
            Inl exc \<Rightarrow>
              s\<lparr>log_text := (if log_text s \<noteq> [] then log_text s @ [CHR 0x0A] else [])
                              @ ''[error] '' @ error_text exc\<rparr>
          | Inr bs \<Rightarrow>
              (let old_name = fst (branches s ! nat (selected s)) in
               s\<lparr>branches := bs,
                  selected := (if branches s \<noteq> [] \<and> old_name \<in> fst ` set bs
                               then int (length (takeWhile (\<lambda>b. fst b \<noteq> old_name) bs))
                               else 0)\<rparr>))"
  using assms by (rule refresh_branches_eq)

theorem refresh_branches_spec_witness:
  "selection_ok ui_idle
   \<and> refresh_branches q_broken ui_idle
       = Inr (ui_idle\<lparr>log_text := ''[error] fatal: not a git repository''\<rparr>)
   \<and> refresh_branches q_main_old ui_idle = Inr ui_idle"
proof -
  have a: "selection_ok ui_idle"
    by (simp add: selection_ok_def ui_idle_def)
  have l1: "list_branches (fst q_broken) (snd q_broken)
              = Inl (RuntimeError ''fatal: not a git repository'')"
    unfolding q_broken_def by code_simp
  have l2: "list_branches (fst q_main_old) (snd q_main_old)
              = Inr [(''main'', True), (''old'', False)]"
    unfolding q_main_old_def by code_simp
  have b: "refresh_branches q_broken ui_idle
       = Inr (ui_idle\<lparr>log_text := ''[error] fatal: not a git repository''\<rparr>)"
    unfolding refresh_branches_spec [OF a] l1 by (simp add: ui_idle_def)
  have c: "refresh_branches q_main_old ui_idle = Inr ui_idle"
    unfolding refresh_branches_spec [OF a] l2 by (simp add: ui_idle_def)
  show ?thesis
    by (rule conjI [OF a conjI [OF b c]])
qed

section \<open>Streaming the output\<close>



section \<open>A command that fails\<close>

text \<open>
  Claim C2. From a navigating state with a selected branch \<open>b\<close>, let the delete key
  (respectively the enter key) be pressed and the command it starts run to its end:
  the child is created, any lines are read up to the end of the stream, and the child
  exits with a code other than zero. After the delete, which ran
  \<open>git branch -d b\<close>, the status is the delete-failed text naming \<open>b\<close> and the
  controller is confirming the force delete of \<open>b\<close>. After the switch, which ran
  \<open>git switch b\<close>, the status is the text with the exit code and the controller is
  navigating again.
\<close>

theorem failed_command:
  assumes "\<not> exited s" and "\<not> processing s" and "focus s = ListWindow"
    and "awaiting_force_branch s = None"
    and "branches s \<noteq> []" and "selection_ok s"
    and "[] \<notin> set ls" and "code \<noteq> 0"
  shows "(\<exists>s'. run (Key KeyDelete # Spawned (length (tasks s))
                     # map (Readline (length (tasks s))) ls
                     @ [Readline (length (tasks s)) [], Exited (length (tasks s)) code q1 q2]) s
                = Some (Inr s')
            \<and> p_args (procs s' ! length (procs s))
                = [''git'', ''branch'', ''-d'', fst (branches s ! nat (selected s))]
            \<and> status s' = StatusDeleteFailed (fst (branches s ! nat (selected s)))
            \<and> mode_of s' = ConfirmingForceDelete (fst (branches s ! nat (selected s))))
       \<and> (\<exists>s'. run (Key KeyEnter # Spawned (length (tasks s))
                     # map (Readline (length (tasks s))) ls
                     @ [Readline (length (tasks s)) [], Exited (length (tasks s)) code q1 q2]) s
                = Some (Inr s')
            \<and> p_args (procs s' ! length (procs s))
                = [''git'', ''switch'', fst (branches s ! nat (selected s))]
            \<and> status s' = StatusGitExited code
            \<and> mode_of s' = Navigating)"
proof
  let ?b = "fst (branches s ! nat (selected s))"
  have k: "step (Key KeyDelete) s =
     Some (Inr (run_git [''git'', ''branch'', ''-d'', ?b] (Some RefreshBranches)
                  (Some (StartForcePrompt ?b)) True s))"
    using assms by (simp add: step_def key_press_def matching_simps on_delete_eq)
  show "\<exists>s'. run (Key KeyDelete # Spawned (length (tasks s))
                     # map (Readline (length (tasks s))) ls
                     @ [Readline (length (tasks s)) [], Exited (length (tasks s)) code q1 q2]) s
                = Some (Inr s')
            \<and> p_args (procs s' ! length (procs s)) = [''git'', ''branch'', ''-d'', ?b]
            \<and> status s' = StatusDeleteFailed ?b
            \<and> mode_of s' = ConfirmingForceDelete ?b"
    unfolding run_whole_command [OF assms(1) assms(7) k]
    using assms(8) by (simp add: finish_git_fail_prompt finish_git_fail_plain at_wait_def mode_of_def)
next
  let ?b = "fst (branches s ! nat (selected s))"
  have k: "step (Key KeyEnter) s =
     Some (Inr (run_git [''git'', ''switch'', ?b]
                  (Some (if quit_on_switch s then AppExit else AfterSwitch)) None
                  (\<not> quit_on_switch s) s))"
    using assms by (simp add: step_def key_press_def matching_simps on_enter_eq)
  show "\<exists>s'. run (Key KeyEnter # Spawned (length (tasks s))
                     # map (Readline (length (tasks s))) ls
                     @ [Readline (length (tasks s)) [], Exited (length (tasks s)) code q1 q2]) s
                = Some (Inr s')
            \<and> p_args (procs s' ! length (procs s)) = [''git'', ''switch'', ?b]
            \<and> status s' = StatusGitExited code
            \<and> mode_of s' = Navigating"
    unfolding run_whole_command [OF assms(1) assms(7) k]
    using assms(8) assms(4) by (simp add: finish_git_fail_prompt finish_git_fail_plain at_wait_def mode_of_def)
qed

theorem failed_command_witness:
  "\<not> exited ui_idle \<and> \<not> processing ui_idle \<and> focus ui_idle = ListWindow
   \<and> awaiting_force_branch ui_idle = None \<and> branches ui_idle \<noteq> [] \<and> selection_ok ui_idle
   \<and> [] \<notin> set [''error: not fully merged'' @ [CHR 0x0A]] \<and> (1::int) \<noteq> 0
   \<and> (\<exists>s'. run (Key KeyDelete # Spawned (length (tasks ui_idle))
                     # map (Readline (length (tasks ui_idle))) [''error: not fully merged'' @ [CHR 0x0A]]
                     @ [Readline (length (tasks ui_idle)) [],
                        Exited (length (tasks ui_idle)) 1 q_main_old q_main_old]) ui_idle
                = Some (Inr s')
            \<and> p_args (procs s' ! length (procs ui_idle))
                = [''git'', ''branch'', ''-d'', fst (branches ui_idle ! nat (selected ui_idle))]
            \<and> status s' = StatusDeleteFailed (fst (branches ui_idle ! nat (selected ui_idle)))
            \<and> mode_of s' = ConfirmingForceDelete (fst (branches ui_idle ! nat (selected ui_idle))))"
proof -
  have h1: "\<not> exited ui_idle" and h2: "\<not> processing ui_idle"
    and h3: "focus ui_idle = ListWindow" and h4: "awaiting_force_branch ui_idle = None"
    and h5: "branches ui_idle \<noteq> []" and h6: "selection_ok ui_idle"
    by (simp_all add: ui_idle_def selection_ok_def)
  have h7: "[] \<notin> set [''error: not fully merged'' @ [CHR 0x0A]]"
    by simp
  have h8: "(1::int) \<noteq> 0"
    by simp
  note c = conjunct1 [OF failed_command [OF h1 h2 h3 h4 h5 h6 h7 h8, of q_main_old q_main_old]]
  show ?thesis
    by (rule conjI [OF h1 conjI [OF h2 conjI [OF h3 conjI [OF h4 conjI [OF h5
          conjI [OF h6 conjI [OF h7 conjI [OF h8 c]]]]]]]])
qed

section \<open>The force-delete confirmation\<close>

text \<open>
  Claim C3, as stated, fails: with the confirmation for \<open>old\<close> pending, the up key
  runs its usual handler, which moves the selection; the confirmation stays pending and
  the status text stays the question.
\<close>

theorem force_prompt_other_key:
  "key_press KeyUp ui_prompt = Inr (ui_prompt\<lparr>selected := 0\<rparr>)
   \<and> mode_of (ui_prompt\<lparr>selected := 0\<rparr>) = ConfirmingForceDelete ''old''
   \<and> status (ui_prompt\<lparr>selected := 0\<rparr>) = StatusDeleteFailed ''old''
   \<and> ConfirmingForceDelete ''old'' \<noteq> Navigating"
  by code_simp

text \<open>
  Claim C3, amended. While the force delete of \<open>b\<close> awaits confirmation, the key
  \<open>y\<close> starts \<open>git branch -D b\<close> and the controller is busy; the key \<open>n\<close> and the
  enter key cancel the confirmation, restore the status text (the navigation hints,
  after the words \<open>Force delete canceled.\<close>) and leave the controller navigating; the
  up and down keys cancel nothing: they move the selection by one, modulo the number of
  branches, and the confirmation of \<open>b\<close> and its status text stay.
\<close>

theorem force_prompt_keys:
  assumes "\<not> exited s" and "mode_of s = ConfirmingForceDelete b" and "b \<noteq> []"
  shows "(\<exists>s'. run [Key (KeyChar CHR ''y''), Spawned (length (tasks s))] s = Some (Inr s')
            \<and> mode_of s' = Busy \<and> awaiting_force_branch s' = None
            \<and> procs s' = procs s @ [\<lparr>p_args = [''git'', ''branch'', ''-D'', b],
                                       p_stdin = Some [], p_code = None\<rparr>])
       \<and> key_press (KeyChar CHR ''n'') s
           = Inr (s\<lparr>awaiting_force_branch := None, status := StatusForceCanceled\<rparr>)
       \<and> key_press KeyEnter s
           = Inr (s\<lparr>awaiting_force_branch := None, status := StatusForceCanceled\<rparr>)
       \<and> mode_of (s\<lparr>awaiting_force_branch := None, status := StatusForceCanceled\<rparr>) = Navigating
       \<and> (focus s = ListWindow \<longrightarrow>
            key_press KeyUp s =
              Inr (s\<lparr>selected := (if branches s = [] then selected s
                                   else (selected s - 1) mod int (length (branches s)))\<rparr>)
          \<and> key_press KeyDown s =
              Inr (s\<lparr>selected := (if branches s = [] then selected s
                                   else (selected s + 1) mod int (length (branches s)))\<rparr>)
          \<and> (\<forall>x. mode_of (s\<lparr>selected := x\<rparr>) = ConfirmingForceDelete b
                 \<and> status (s\<lparr>selected := x\<rparr>) = status s))"
proof -
  from assms(2) have p: "\<not> processing s" and a: "awaiting_force_branch s = Some b"
    by (auto simp: mode_of_def split: if_splits option.splits)
  let ?s0 = "append_log (''Force deleting '' @ b) (s\<lparr>awaiting_force_branch := None\<rparr>)"
  have e0: "\<not> exited ?s0" "tasks ?s0 = tasks s" "procs ?s0 = procs s"
    using assms(1) by (simp_all add: append_log_def)
  have y: "step (Key (KeyChar CHR ''y'')) s =
     Some (Inr (run_git [''git'', ''branch'', ''-D'', b] (Some RefreshBranches) None True ?s0))"
    using assms(1,3) a by (simp add: step_def key_press_def matching_simps on_force_yes_def)
  note sp = step_spawned [OF e0(1), of "[''git'', ''branch'', ''-D'', b]" "Some RefreshBranches" None True]
  have 1: "\<exists>s'. run [Key (KeyChar CHR ''y''), Spawned (length (tasks s))] s = Some (Inr s')
            \<and> mode_of s' = Busy \<and> awaiting_force_branch s' = None
            \<and> procs s' = procs s @ [\<lparr>p_args = [''git'', ''branch'', ''-D'', b],
                                       p_stdin = Some [], p_code = None\<rparr>]"
    using y sp e0(2,3) by (simp add: mode_of_def append_log_def)
  have 2: "key_press (KeyChar CHR ''n'') s
           = Inr (s\<lparr>awaiting_force_branch := None, status := StatusForceCanceled\<rparr>)"
    and 3: "key_press KeyEnter s
           = Inr (s\<lparr>awaiting_force_branch := None, status := StatusForceCanceled\<rparr>)"
    using a assms(3) by (simp_all add: key_press_def matching_simps on_force_no_def)
  have 4: "mode_of (s\<lparr>awaiting_force_branch := None, status := StatusForceCanceled\<rparr>) = Navigating"
    using p by (simp add: mode_of_def)
  have 5: "focus s = ListWindow \<longrightarrow>
            key_press KeyUp s =
              Inr (s\<lparr>selected := (if branches s = [] then selected s
                                   else (selected s - 1) mod int (length (branches s)))\<rparr>)
          \<and> key_press KeyDown s =
              Inr (s\<lparr>selected := (if branches s = [] then selected s
                                   else (selected s + 1) mod int (length (branches s)))\<rparr>)
          \<and> (\<forall>x. mode_of (s\<lparr>selected := x\<rparr>) = ConfirmingForceDelete b
                 \<and> status (s\<lparr>selected := x\<rparr>) = status s)"
    using p a by (simp add: key_press_def matching_simps on_up_def on_down_def mode_of_def)
  show ?thesis
    by (rule conjI [OF 1 conjI [OF 2 conjI [OF 3 conjI [OF 4 5]]]])
qed

theorem force_prompt_keys_witness:
  "\<not> exited ui_prompt \<and> mode_of ui_prompt = ConfirmingForceDelete ''old'' \<and> ''old'' \<noteq> []
   \<and> focus ui_prompt = ListWindow
   \<and> key_press (KeyChar CHR ''n'') ui_prompt
       = Inr (ui_prompt\<lparr>awaiting_force_branch := None, status := StatusForceCanceled\<rparr>)
   \<and> key_press KeyUp ui_prompt = Inr (ui_prompt\<lparr>selected := 0\<rparr>)
   \<and> key_press KeyDown (ui_prompt\<lparr>selected := 0\<rparr>) = Inr (ui_prompt\<lparr>selected := 1\<rparr>)
   \<and> (\<exists>s'. run [Key (KeyChar CHR ''y''), Spawned 1] ui_prompt = Some (Inr s')
            \<and> mode_of s' = Busy \<and> awaiting_force_branch s' = None
            \<and> procs s' = [\<lparr>p_args = [''git'', ''branch'', ''-d'', ''old''], p_stdin = Some [],
                             p_code = Some 1\<rparr>,
                           \<lparr>p_args = [''git'', ''branch'', ''-D'', ''old''], p_stdin = Some [],
                             p_code = None\<rparr>])"
proof -
  have h1: "\<not> exited ui_prompt"
    and h2: "mode_of ui_prompt = ConfirmingForceDelete ''old''"
    and h4: "focus ui_prompt = ListWindow"
    by (simp_all add: ui_prompt_def ui_idle_def mode_of_def)
  have h1': "\<not> exited (ui_prompt\<lparr>selected := 0\<rparr>)"
    and h2': "mode_of (ui_prompt\<lparr>selected := 0\<rparr>) = ConfirmingForceDelete ''old''"
    and h4': "focus (ui_prompt\<lparr>selected := 0\<rparr>) = ListWindow"
    by (simp_all add: ui_prompt_def ui_idle_def mode_of_def)
  have h3: "''old'' \<noteq> []"
    by simp
  note t = force_prompt_keys [OF h1 h2 h3]
  note t' = force_prompt_keys [OF h1' h2' h3]
  have f: "branches ui_prompt = [(''main'', True), (''old'', False)]" "selected ui_prompt = 1"
    "tasks ui_prompt = [Completed]"
    "procs ui_prompt = [\<lparr>p_args = [''git'', ''branch'', ''-d'', ''old''], p_stdin = Some [],
                             p_code = Some 1\<rparr>]"
    by (simp_all add: ui_prompt_def ui_idle_def)
  have n: "key_press (KeyChar CHR ''n'') ui_prompt
       = Inr (ui_prompt\<lparr>awaiting_force_branch := None, status := StatusForceCanceled\<rparr>)"
    by (rule conjunct1 [OF conjunct2 [OF t]])
  have u: "key_press KeyUp ui_prompt = Inr (ui_prompt\<lparr>selected := 0\<rparr>)"
    using t h4 by (simp add: f)
  have d: "key_press KeyDown (ui_prompt\<lparr>selected := 0\<rparr>) = Inr (ui_prompt\<lparr>selected := 1\<rparr>)"
    using t' h4' by (simp add: f)
  have y: "\<exists>s'. run [Key (KeyChar CHR ''y''), Spawned 1] ui_prompt = Some (Inr s')
            \<and> mode_of s' = Busy \<and> awaiting_force_branch s' = None
            \<and> procs s' = [\<lparr>p_args = [''git'', ''branch'', ''-d'', ''old''], p_stdin = Some [],
                             p_code = Some 1\<rparr>,
                           \<lparr>p_args = [''git'', ''branch'', ''-D'', ''old''], p_stdin = Some [],
                             p_code = None\<rparr>]"
    using conjunct1 [OF t] by (simp add: f del: run.simps)
  show ?thesis
    by (rule conjI [OF h1 conjI [OF h2 conjI [OF h3 conjI [OF h4 conjI [OF n conjI [OF u
          conjI [OF d y]]]]]]])
qed

section \<open>A switch that succeeds\<close>

text \<open>
  Claim C7, as stated, fails: with quit-on-switch configured, a successful switch ends
  the application and leaves the branch list as it was, although the tool would now
  report another branch as checked out.
\<close>

theorem switch_quit_no_refresh:
  "map_option (map_sum id (\<lambda>s. (exited s, branches s)))
     (run [Key KeyEnter, Spawned 0, Readline 0 [], Exited 0 0 q_old_current q_old_current]
        (ui_idle\<lparr>quit_on_switch := True\<rparr>))
     = Some (Inr (True, [(''main'', True), (''old'', False)]))
   \<and> list_branches (fst q_old_current) (snd q_old_current)
       = Inr [(''main'', False), (''old'', True)]"
  by code_simp

text \<open>
  Claim C7, amended. From a navigating state with a selected branch, let the enter key
  be pressed and \<open>git switch\<close> run to its end with exit code 0. With quit-on-switch
  configured the application terminates, the branch list and the selection being what
  they were. Otherwise the application goes on, the status is the switched text, the
  controller is navigating, and the branch list is the newest listing that succeeded of
  the two refreshes made (the one asked by the command and the one of the continuation),
  or the old list when both fail.
\<close>

theorem switch_succeeded:
  assumes "\<not> exited s" and "\<not> processing s" and "focus s = ListWindow"
    and "awaiting_force_branch s = None"
    and "branches s \<noteq> []" and "selection_ok s"
    and "[] \<notin> set ls"
  shows "\<exists>s'. run (Key KeyEnter # Spawned (length (tasks s))
                     # map (Readline (length (tasks s))) ls
                     @ [Readline (length (tasks s)) [], Exited (length (tasks s)) 0 q1 q2]) s
                = Some (Inr s')
            \<and> mode_of s' = Navigating
            \<and> (if quit_on_switch s
                then exited s' \<and> branches s' = branches s \<and> selected s' = selected s
                else \<not> exited s' \<and> status s' = StatusSwitched
                   \<and> branches s' =
                       (case list_branches (fst q2) (snd q2) of
                          Inr bs \<Rightarrow> bs
                        | Inl _ \<Rightarrow> (case list_branches (fst q1) (snd q1) of
                                       Inr bs \<Rightarrow> bs | Inl _ \<Rightarrow> branches s)))"
proof -
  let ?b = "fst (branches s ! nat (selected s))"
  let ?su = "Some (if quit_on_switch s then AppExit else AfterSwitch)"
  let ?args = "[''git'', ''switch'', ?b]"
  let ?t = "(at_wait ?args ?su None (\<not> quit_on_switch s) ls s)\<lparr>tasks := tasks s @ [Completed]\<rparr>"
  have k: "step (Key KeyEnter) s =
     Some (Inr (run_git ?args ?su None (\<not> quit_on_switch s) s))"
    using assms by (simp add: step_def key_press_def matching_simps on_enter_eq)
  note r = run_whole_command [OF assms(1) assms(7) k, of 0 q1 q2]
  show ?thesis
  proof (cases "quit_on_switch s")
    case True
    then show ?thesis
      unfolding r using assms(4)
      by (simp add: finish_git_app_exit at_wait_def mode_of_def)
  next
    case False
    have "selection_ok ?t"
      using assms(6) by (simp add: selection_ok_def at_wait_def)
    from finish_git_after_switch [OF this, of "length (procs s)" q1 q2]
    obtain s' where s': "finish_git (Some AfterSwitch) None True (length (procs s)) 0 q1 q2 ?t = Inr s'"
      "\<not> processing s'" "status s' = StatusSwitched"
      "awaiting_force_branch s' = awaiting_force_branch ?t" "exited s' = exited ?t"
      "branches s' =
         (case list_branches (fst q2) (snd q2) of
            Inr bs \<Rightarrow> bs
          | Inl _ \<Rightarrow> (case list_branches (fst q1) (snd q1) of
                         Inr bs \<Rightarrow> bs | Inl _ \<Rightarrow> branches ?t))"
      by blast
    moreover have "awaiting_force_branch ?t = None" "\<not> exited ?t" "branches ?t = branches s"
      using assms(1) assms(4) by (simp_all add: at_wait_def)
    ultimately show ?thesis
      unfolding r using False
      by (simp add: mode_of_def split: sum.splits)
  qed
qed

theorem switch_succeeded_witness:
  "\<not> exited ui_idle \<and> \<not> processing ui_idle \<and> focus ui_idle = ListWindow
   \<and> awaiting_force_branch ui_idle = None \<and> branches ui_idle \<noteq> [] \<and> selection_ok ui_idle
   \<and> [] \<notin> set [''Switched to branch old'' @ [CHR 0x0A]]
   \<and> (\<exists>s'. run (Key KeyEnter # Spawned (length (tasks ui_idle))
                     # map (Readline (length (tasks ui_idle))) [''Switched to branch old'' @ [CHR 0x0A]]
                     @ [Readline (length (tasks ui_idle)) [],
                        Exited (length (tasks ui_idle)) 0 q_old_current q_old_current]) ui_idle
                = Some (Inr s')
            \<and> mode_of s' = Navigating
            \<and> (if quit_on_switch ui_idle
                then exited s' \<and> branches s' = branches ui_idle \<and> selected s' = selected ui_idle
                else \<not> exited s' \<and> status s' = StatusSwitched
                   \<and> branches s' =
                       (case list_branches (fst q_old_current) (snd q_old_current) of
                          Inr bs \<Rightarrow> bs
                        | Inl _ \<Rightarrow> (case list_branches (fst q_old_current) (snd q_old_current) of
                                       Inr bs \<Rightarrow> bs | Inl _ \<Rightarrow> branches ui_idle))))"
proof -
  have h1: "\<not> exited ui_idle" and h2: "\<not> processing ui_idle"
    and h3: "focus ui_idle = ListWindow" and h4: "awaiting_force_branch ui_idle = None"
    and h5: "branches ui_idle \<noteq> []" and h6: "selection_ok ui_idle"
    by (simp_all add: ui_idle_def selection_ok_def)
  have h7: "[] \<notin> set [''Switched to branch old'' @ [CHR 0x0A]]"
    by simp
  note c = switch_succeeded [OF h1 h2 h3 h4 h5 h6 h7, of q_old_current q_old_current]
  show ?thesis
    by (rule conjI [OF h1 conjI [OF h2 conjI [OF h3 conjI [OF h4 conjI [OF h5
          conjI [OF h6 conjI [OF h7 c]]]]]]])
qed

section \<open>Submitting a line\<close>




section \<open>Two children at once\<close>

text \<open>
  Claim C1 does not hold of the code. The enter and delete handlers return at once
  while a command runs, but the handler of \<open>y\<close> only looks at the pending
  confirmation, which the delete handler does not clear. From \<open>ui_idle\<close>: a delete
  fails and the confirmation for \<open>old\<close> is pending; delete is pressed again and
  starts \<open>git branch -d old\<close>; \<open>y\<close> is pressed while it runs and starts
  \<open>git branch -D old\<close>; both children are created, and neither has exited.
\<close>

theorem second_process_started:
  "map_option (map_sum id (\<lambda>s. map p_args (active_procs s)))
     (run [Key KeyDelete, Spawned 0, Readline 0 [], Exited 0 1 q_main_old q_main_old,
           Key KeyDelete, Key (KeyChar CHR ''y''), Spawned 1, Spawned 2] ui_idle)
   = Some (Inr [[''git'', ''branch'', ''-d'', ''old''], [''git'', ''branch'', ''-D'', ''old'']])"
  by code_simp

end
